theory Spec2Isabelle
  imports Complex_Main "HOL-Library.Sublist"
begin

section \<open>Data model\<close>

text \<open>
  Python \<^verbatim>\<open>bytes\<close> are lists of 8-bit characters. A segment is the tuple
  \<^verbatim>\<open>(duration, payload)\<close> that the fetch worker appends to the hand-off list
  (\<^verbatim>\<open>list[tuple[float, bytes]]\<close>). Durations and clock readings are Python floats;
  they are modelled as real numbers, so rounding is not part of the model.
\<close>

type_synonym bytes = string

type_synonym segment = "real \<times> bytes"

text \<open>
  The media stream is an external object with a declared \<^verbatim>\<open>size\<close> and a
  \<^verbatim>\<open>read(n)\<close> that hands out between 0 and \<^verbatim>\<open>n\<close> bytes. Its behaviour is a script:
  \<open>buffer\<close> holds the bytes the transport still has, \<open>avail\<close> says how many bytes each
  successive call is able to hand out (a call after the script is exhausted hands out
  nothing), and \<open>requests\<close> logs the sizes that were asked for, oldest first. A request
  for a size that is not positive is handed nothing.
\<close>

record media_stream =
  stream_size :: int
  buffer :: bytes
  avail :: "nat list"
  requests :: "int list"

definition stream_read :: "media_stream \<Rightarrow> int \<Rightarrow> bytes \<times> media_stream" where
  "stream_read s n =
     (let k = (case avail s of [] \<Rightarrow> 0 | a # _ \<Rightarrow> min a (nat n))
      in (take k (buffer s),
          s\<lparr>buffer := drop k (buffer s), avail := drop 1 (avail s),
            requests := requests s @ [n]\<rparr>))"

text \<open>
  \<^verbatim>\<open>mutagen.oggvorbis.OggVorbis(BytesIO(full_data)).info.length\<close> is an external probe:
  it yields the decodable length of the bytes so far, raises \<^verbatim>\<open>OggVorbisHeaderError\<close>
  (the one exception the worker catches), or raises something else.
\<close>

datatype probe_result = Length real | OggVorbisHeaderError | OtherProbeError

datatype exception =
    StreamReadException
  | MediaFetchInterruptedException
  | RuntimeError
  | TypeError
  | OtherException

datatype 'a flow = Continue 'a | Break 'a | Raise exception 'a

section \<open>The streaming fetch worker (\<^verbatim>\<open>fetch_thread_worker\<close>)\<close>

record worker_state =
  w_stream :: media_stream
  chunk :: int
  size_fetched :: int
  pending_data :: bytes
  full_data :: bytes
  length_till_last_segment :: real
  media_container :: "segment list"
  loop_tests :: nat

text \<open>One pass through the body of the worker's \<^verbatim>\<open>while\<close> loop (lines 366-388).\<close>

definition worker_body ::
  "(bytes \<Rightarrow> probe_result) \<Rightarrow> int \<Rightarrow> int \<Rightarrow> worker_state \<Rightarrow> worker_state flow" where
  "worker_body probe total_size skip_at_end st =
     (let (data, strm) = stream_read (w_stream st) (chunk st);
          st1 = st\<lparr>w_stream := strm, pending_data := pending_data st @ data\<rparr>
      in if length data = 0 \<and> chunk st1 \<le> skip_at_end then Break st1
         else
           let st2 = (if total_size - size_fetched st1 < chunk st1
                      then st1\<lparr>chunk := total_size - size_fetched st1\<rparr> else st1)
           in if length data = 0 \<and> chunk st2 > skip_at_end
              then Raise StreamReadException
                     (st2\<lparr>media_container := media_container st2 @ [(0, [])]\<rparr>)
              else
                let st3 = st2\<lparr>size_fetched := size_fetched st2 + int (length data),
                              full_data := full_data st2 @ data\<rparr>
                in case probe (full_data st3) of
                     Length length_till_now \<Rightarrow>
                       Continue
                         (st3\<lparr>length_till_last_segment := length_till_now,
                              media_container := media_container st3 @
                                [(length_till_now - length_till_last_segment st3,
                                  pending_data st3)],
                              pending_data := []\<rparr>)
                   | OggVorbisHeaderError \<Rightarrow> Continue st3
                   | OtherProbeError \<Rightarrow> Raise OtherException st3)"

text \<open>How a call ends: it returns, or it raises.\<close>

datatype worker_outcome = Returned | Raised exception

text \<open>
  The loop ends: every pass uses up one entry of the read script, and once the script
  is exhausted every read is empty, so a pass either leaves the loop or brings the
  chunk size from above the tolerance to within it, after which the next empty read
  breaks.
\<close>

definition worker_measure :: "int \<Rightarrow> worker_state \<Rightarrow> nat" where
  "worker_measure skip_at_end st =
     2 * length (avail (w_stream st)) + (if chunk st > skip_at_end then 1 else 0)"

text \<open>
  The cancellation flag is written by other threads. \<open>halt k\<close> is what
  \<^verbatim>\<open>bool(halt_marker)\<close> returns at the worker's \<open>k\<close>-th evaluation of the loop
  condition (counted from 0 in \<open>loop_tests\<close>).
\<close>

function worker_loop ::
  "(bytes \<Rightarrow> probe_result) \<Rightarrow> (nat \<Rightarrow> bool) \<Rightarrow> int \<Rightarrow> int \<Rightarrow> worker_state
     \<Rightarrow> worker_outcome \<times> worker_state" where
  "worker_loop probe halt total_size skip_at_end st =
     (if size_fetched st < total_size \<and> \<not> halt (loop_tests st) then
        (case worker_body probe total_size skip_at_end
                (st\<lparr>loop_tests := Suc (loop_tests st)\<rparr>) of
           Continue st' \<Rightarrow> worker_loop probe halt total_size skip_at_end st'
         | Break st' \<Rightarrow>
             (Returned, st'\<lparr>media_container := media_container st' @ [(0, [])]\<rparr>)
         | Raise e st' \<Rightarrow> (Raised e, st'))
      else (Returned, st\<lparr>loop_tests := Suc (loop_tests st),
                          media_container := media_container st @ [(0, [])]\<rparr>))"
  by pat_completeness auto

termination
proof (relation "measure (\<lambda>(probe, halt, total_size, skip_at_end, st).
                   worker_measure skip_at_end st)")
  show "wf (measure (\<lambda>(probe, halt, total_size, skip_at_end, st).
                   worker_measure skip_at_end st))"
    by simp
next
  fix probe :: "bytes \<Rightarrow> probe_result" and halt :: "nat \<Rightarrow> bool"
    and total_size skip_at_end :: int and st st' :: worker_state
  let ?st = "st\<lparr>loop_tests := Suc (loop_tests st)\<rparr>"
  assume c: "worker_body probe total_size skip_at_end ?st = Continue st'"
  obtain data strm where r: "stream_read (w_stream ?st) (chunk ?st) = (data, strm)"
    by force
  then have av: "avail strm = drop 1 (avail (w_stream st))"
    and ex: "avail (w_stream st) = [] \<Longrightarrow> data = []"
    by (auto simp: stream_read_def Let_def)
  from c r have "w_stream st' = strm" and "chunk st' \<le> chunk st"
    and "data = [] \<Longrightarrow> skip_at_end < chunk st \<and> chunk st' \<le> skip_at_end"
    by (auto simp add: worker_body_def Let_def split: if_splits probe_result.splits)
  with av ex have "worker_measure skip_at_end st' < worker_measure skip_at_end st"
    by (cases "avail (w_stream st)") (simp_all add: worker_measure_def)
  then show "((probe, halt, total_size, skip_at_end, st'), (probe, halt, total_size, skip_at_end, st))
          \<in> measure (\<lambda>(probe, halt, total_size, skip_at_end, st).
                   worker_measure skip_at_end st)"
    by simp
qed

declare worker_loop.simps [simp del]

text \<open>
  The worker as \<^verbatim>\<open>play\<close> starts it: fresh counters and buffers, an empty container,
  \<^verbatim>\<open>total_size\<close> read from the stream.
\<close>

definition worker_init :: "media_stream \<Rightarrow> int \<Rightarrow> worker_state" where
  "worker_init strm chunk0 =
     \<lparr>w_stream = strm, chunk = chunk0, size_fetched = 0, pending_data = [],
      full_data = [], length_till_last_segment = 0, media_container = [],
      loop_tests = 0\<rparr>"

definition fetch_thread_worker ::
  "(bytes \<Rightarrow> probe_result) \<Rightarrow> (nat \<Rightarrow> bool) \<Rightarrow> media_stream \<Rightarrow> int \<Rightarrow> int
     \<Rightarrow> worker_outcome \<times> worker_state" where
  "fetch_thread_worker probe halt strm chunk0 skip_at_end =
     worker_loop probe halt (stream_size strm) skip_at_end (worker_init strm chunk0)"

section \<open>The bulk fetcher (\<^verbatim>\<open>AbstractMediaItem.get_media\<close>)\<close>

text \<open>
  \<open>handle_valid\<close> says whether \<^verbatim>\<open>self.__stream\<close> holds a stream (\<^verbatim>\<open>reset_stream\<close>
  sets it to \<^verbatim>\<open>None\<close>). The progress callback \<^verbatim>\<open>pg_notify\<close> is a callable or
  \<^verbatim>\<open>None\<close>: \<open>pg_given\<close> says that it is a callable, and \<open>pg_log\<close> collects the calls
  it receives. The stop list is shared with the caller: \<open>cancel k\<close> are the ids that
  other parties append to it during pass \<open>k\<close> of the read loop, seen by the fetcher
  from line 271 of that pass on.
\<close>

record fetch_state =
  f_stream :: media_stream
  chunk_size :: int
  raw_media :: bytes
  stop_check_list :: "string list"
  pg_given :: bool
  pg_log :: "(int \<times> int \<times> string) list"
  handle_valid :: bool
  passes :: nat

text \<open>
  What a call of the callback does when there is one, and the call
  \<^verbatim>\<open>pg_notify(...)\<close> itself, which raises \<^verbatim>\<open>TypeError\<close> when \<^verbatim>\<open>pg_notify\<close> is \<^verbatim>\<open>None\<close>.
  Line 269 tests for \<^verbatim>\<open>None\<close> before the call of line 270; lines 276 and 284 call
  without a test.
\<close>

definition notified :: "int \<times> int \<times> string \<Rightarrow> fetch_state \<Rightarrow> fetch_state" where
  "notified msg st = st\<lparr>pg_log := pg_log st @ [msg]\<rparr>"

definition pg_notify :: "int \<times> int \<times> string \<Rightarrow> fetch_state \<Rightarrow> exception + fetch_state" where
  "pg_notify msg st = (if pg_given st then Inr (notified msg st) else Inl TypeError)"

definition reset_stream :: "fetch_state \<Rightarrow> fetch_state" where
  "reset_stream st = st\<lparr>handle_valid := False\<rparr>"

text \<open>One pass through the body of the read loop (lines 266-281).\<close>

definition get_media_body ::
  "(nat \<Rightarrow> string list) \<Rightarrow> int \<Rightarrow> int \<Rightarrow> fetch_state \<Rightarrow> fetch_state flow" where
  "get_media_body cancel total_size skip_at_end_bytes st =
     (let (data, strm) = stream_read (f_stream st) (chunk_size st);
          st1 = st\<lparr>f_stream := strm,
                   raw_media := (if length data \<noteq> 0 then raw_media st @ data else raw_media st)\<rparr>;
          st2 = (if pg_given st1
                 then notified (int (length (raw_media st1)), total_size, ''Downloading'') st1
                 else st1);
          st3 = st2\<lparr>stop_check_list := stop_check_list st2 @ cancel (passes st2),
                    passes := Suc (passes st2)\<rparr>
      in if length data = 0 \<and> chunk_size st3 \<le> skip_at_end_bytes then Break st3
         else
           let st4 = (if total_size - int (length (raw_media st3)) < chunk_size st3
                      then st3\<lparr>chunk_size := total_size - int (length (raw_media st3))\<rparr>
                      else st3)
           in if length data = 0 \<and> chunk_size st4 > skip_at_end_bytes
              then (case pg_notify (0, 1, ''Read Error'') st4 of
                      Inl e \<Rightarrow> Raise e st4
                    | Inr st5 \<Rightarrow> Raise StreamReadException (reset_stream st5))
              else Continue st4)"

definition fetch_measure :: "int \<Rightarrow> fetch_state \<Rightarrow> nat" where
  "fetch_measure skip_at_end_bytes st =
     2 * length (avail (f_stream st)) + (if chunk_size st > skip_at_end_bytes then 1 else 0)"

text \<open>
  The read loop (line 265). The first component of the result is \<open>None\<close> when the loop
  is left by its condition or by \<^verbatim>\<open>break\<close>, and the exception when it is left by
  \<^verbatim>\<open>raise\<close>.
\<close>

function get_media_loop ::
  "string \<Rightarrow> (nat \<Rightarrow> string list) \<Rightarrow> int \<Rightarrow> int \<Rightarrow> fetch_state
     \<Rightarrow> exception option \<times> fetch_state" where
  "get_media_loop media_id cancel total_size skip_at_end_bytes st =
     (if int (length (raw_media st)) < total_size \<and> media_id \<notin> set (stop_check_list st) then
        (case get_media_body cancel total_size skip_at_end_bytes st of
           Continue st' \<Rightarrow> get_media_loop media_id cancel total_size skip_at_end_bytes st'
         | Break st' \<Rightarrow> (None, st')
         | Raise e st' \<Rightarrow> (Some e, st'))
      else (None, st))"
  by pat_completeness auto

termination
proof (relation "measure (\<lambda>(media_id, cancel, total_size, skip_at_end_bytes, st).
                   fetch_measure skip_at_end_bytes st)")
  show "wf (measure (\<lambda>(media_id, cancel, total_size, skip_at_end_bytes, st).
                   fetch_measure skip_at_end_bytes st))"
    by simp
next
  fix media_id :: string and cancel :: "nat \<Rightarrow> string list"
    and total_size skip_at_end_bytes :: int and st st' :: fetch_state
  assume c: "get_media_body cancel total_size skip_at_end_bytes st = Continue st'"
  obtain data strm where r: "stream_read (f_stream st) (chunk_size st) = (data, strm)"
    by force
  then have av: "avail strm = drop 1 (avail (f_stream st))"
    and ex: "avail (f_stream st) = [] \<Longrightarrow> data = []"
    by (auto simp: stream_read_def Let_def)
  from c r have "f_stream st' = strm" and "chunk_size st' \<le> chunk_size st"
    and "data = [] \<Longrightarrow>
           skip_at_end_bytes < chunk_size st \<and> chunk_size st' \<le> skip_at_end_bytes"
    by (auto simp add: get_media_body_def notified_def Let_def
             split: if_splits sum.splits)
  with av ex have "fetch_measure skip_at_end_bytes st' < fetch_measure skip_at_end_bytes st"
    by (cases "avail (f_stream st)") (simp_all add: fetch_measure_def)
  then show "((media_id, cancel, total_size, skip_at_end_bytes, st'),
         (media_id, cancel, total_size, skip_at_end_bytes, st))
          \<in> measure (\<lambda>(media_id, cancel, total_size, skip_at_end_bytes, st).
                   fetch_measure skip_at_end_bytes st)"
    by simp
qed

declare get_media_loop.simps [simp del]

text \<open>
  \<^verbatim>\<open>stop_check_list.pop(stop_check_list.index(self.id))\<close>: \<^verbatim>\<open>index\<close> finds the first
  position of the id (and raises \<^verbatim>\<open>ValueError\<close> when there is none), \<^verbatim>\<open>pop\<close> removes
  the element at that position.
\<close>

fun list_index :: "'a list \<Rightarrow> 'a \<Rightarrow> nat option" where
  "list_index [] x = None"
| "list_index (y # ys) x =
     (if y = x then Some 0
      else (case list_index ys x of None \<Rightarrow> None | Some i \<Rightarrow> Some (Suc i)))"

fun list_pop :: "'a list \<Rightarrow> nat \<Rightarrow> 'a list" where
  "list_pop [] i = []"
| "list_pop (y # ys) 0 = ys"
| "list_pop (y # ys) (Suc i) = y # list_pop ys i"

text \<open>What follows the loop (lines 282-288).\<close>

definition get_media_finish ::
  "string \<Rightarrow> fetch_state \<Rightarrow> (exception + bytes) \<times> fetch_state" where
  "get_media_finish media_id st =
     (if media_id \<in> set (stop_check_list st) then
        (case list_index (stop_check_list st) media_id of
           None \<Rightarrow> (Inl OtherException, st)
         | Some i \<Rightarrow>
             (let st1 = st\<lparr>stop_check_list := list_pop (stop_check_list st) i\<rparr>
              in case pg_notify (0, 1, ''Cancelled'') st1 of
                   Inl e \<Rightarrow> (Inl e, st1)
                 | Inr st2 \<Rightarrow> (Inl MediaFetchInterruptedException, reset_stream st2)))
      else (Inr (raw_media st), reset_stream st))"

text \<open>
  \<^verbatim>\<open>get_media(chunk_size, stop_check_list, pg_notify, skip_at_end_bytes)\<close>: the argument
  \<open>given\<close> is true for a callable \<^verbatim>\<open>pg_notify\<close> (the default is \<^verbatim>\<open>print\<close>) and false
  for \<^verbatim>\<open>None\<close>.
\<close>

definition fetch_init :: "media_stream \<Rightarrow> int \<Rightarrow> string list \<Rightarrow> bool \<Rightarrow> fetch_state" where
  "fetch_init strm chunk_size0 stop_list given =
     \<lparr>f_stream = strm, chunk_size = chunk_size0, raw_media = [],
      stop_check_list = stop_list, pg_given = given, pg_log = [], handle_valid = True,
      passes = 0\<rparr>"

definition get_media ::
  "string \<Rightarrow> (nat \<Rightarrow> string list) \<Rightarrow> media_stream \<Rightarrow> int \<Rightarrow> string list \<Rightarrow> bool \<Rightarrow> int
     \<Rightarrow> (exception + bytes) \<times> fetch_state" where
  "get_media media_id cancel strm chunk_size0 stop_list given skip_at_end_bytes =
     (case get_media_loop media_id cancel (stream_size strm) skip_at_end_bytes
             (fetch_init strm chunk_size0 stop_list given) of
        (Some e, st) \<Rightarrow> (Inl e, st)
      | (None, st) \<Rightarrow> get_media_finish media_id st)"

section \<open>The playback scheduler (\<^verbatim>\<open>AbstractMediaItem.play\<close>)\<close>

text \<open>
  The scheduler runs beside the worker thread and reads the wall clock. Its environment
  is a script: \<open>clock n\<close> is what the \<open>n\<close>-th call of \<^verbatim>\<open>time.time()\<close> returns,
  \<open>arrivals k\<close> is the number of further items the worker has appended to the shared
  container when pass \<open>k\<close> of the scheduler's loop looks at it, \<open>keyboard_interrupt k\<close>
  says that \<^verbatim>\<open>KeyboardInterrupt\<close> is delivered at the start of pass \<open>k\<close>, and
  \<open>broken_pipe k\<close> that the write to the player's stdin in pass \<open>k\<close> raises
  \<^verbatim>\<open>BrokenPipeError\<close>. \<open>in_flight\<close> holds the items the worker will append and has not
  appended yet, in its order; \<open>player_stdin\<close> collects what was written to the player.
\<close>

record play_env =
  clock :: "nat \<Rightarrow> real"
  arrivals :: "nat \<Rightarrow> nat"
  keyboard_interrupt :: "nat \<Rightarrow> bool"
  broken_pipe :: "nat \<Rightarrow> bool"

record play_state =
  container :: "segment list"
  in_flight :: "segment list"
  stop_marker :: bool
  estimated_playback_end_on :: real
  next_frame_critical_time :: real
  last_frame_on :: int
  player_stdin :: bytes
  stream_loaded :: bool
  clock_reads :: nat
  iterations :: nat

definition time_time :: "play_env \<Rightarrow> play_state \<Rightarrow> real \<times> play_state" where
  "time_time env s = (clock env (clock_reads s), s\<lparr>clock_reads := Suc (clock_reads s)\<rparr>)"

text \<open>Python's \<^verbatim>\<open>int(x)\<close> on a float truncates towards zero.\<close>

definition py_int :: "real \<Rightarrow> int" where
  "py_int x = (if 0 \<le> x then \<lfloor>x\<rfloor> else \<lceil>x\<rceil>)"

definition worker_appends :: "play_env \<Rightarrow> play_state \<Rightarrow> play_state" where
  "worker_appends env s =
     (let n = arrivals env (iterations s)
      in s\<lparr>container := container s @ take n (in_flight s),
           in_flight := drop n (in_flight s),
           iterations := Suc (iterations s)\<rparr>)"

text \<open>Lines 426-429; the third reading of the clock is the one the message prints.\<close>

definition lag_compensation :: "play_env \<Rightarrow> play_state \<Rightarrow> play_state" where
  "lag_compensation env s =
     (if next_frame_critical_time s \<noteq> 0 then
        (let (t_late, s1) = time_time env s
         in if t_late > next_frame_critical_time s1 + 3 / 100 then
              (let (t_over, s2) = time_time env s1;
                   s3 = s2\<lparr>estimated_playback_end_on :=
                             estimated_playback_end_on s2 + (t_over - next_frame_critical_time s2)\<rparr>;
                   (t_shown, s4) = time_time env s3
               in s4)
            else s1)
      else s)"

text \<open>Lines 430-432.\<close>

definition playback_start :: "play_env \<Rightarrow> play_state \<Rightarrow> play_state" where
  "playback_start env s =
     (if estimated_playback_end_on s = 0 then
        (let (t, s1) = time_time env s in s1\<lparr>estimated_playback_end_on := t\<rparr>)
      else s)"

text \<open>
  The three ways the \<^verbatim>\<open>while True\<close> loop is left: the terminal sentinel was popped
  (line 436), the \<^verbatim>\<open>except (KeyboardInterrupt, BrokenPipeError)\<close> handler ran
  (line 447), or the watchdog raised \<^verbatim>\<open>RuntimeError\<close> (line 423), which no handler
  of \<^verbatim>\<open>play\<close> catches.
\<close>

datatype loop_exit = SentinelSeen | Interrupt | Stall

datatype play_step = Next play_state | Leave loop_exit play_state

text \<open>One pass through the body of the loop (lines 418-447).\<close>

definition play_iter :: "play_env \<Rightarrow> play_state \<Rightarrow> play_step" where
  "play_iter env s0 =
     (let k = iterations s0; s = worker_appends env s0
      in if keyboard_interrupt env k then Leave Interrupt (s\<lparr>stop_marker := True\<rparr>)
         else
           (let (t_watch, s1) = time_time env s
            in if py_int t_watch - last_frame_on s1 > 15
               then Leave Stall (s1\<lparr>stop_marker := True\<rparr>)
               else
                 (case container s1 of
                    [] \<Rightarrow> Next s1
                  | seg # rest \<Rightarrow>
                      (let (t_frame, s2) = time_time env s1;
                           s3 = playback_start env
                                  (lag_compensation env (s2\<lparr>last_frame_on := py_int t_frame\<rparr>));
                           s4 = s3\<lparr>container := rest\<rparr>
                       in if snd seg = [] then Leave SentinelSeen s4
                          else
                            (let s5 = s4\<lparr>estimated_playback_end_on :=
                                           estimated_playback_end_on s4 + fst seg\<rparr>
                             in if broken_pipe env k
                                then Leave Interrupt (s5\<lparr>stop_marker := True\<rparr>)
                                else
                                  (let s6 = s5\<lparr>player_stdin := player_stdin s5 @ snd seg\<rparr>;
                                       (t_next, s7) = time_time env s6
                                   in Next (s7\<lparr>next_frame_critical_time :=
                                                 t_next + fst seg\<rparr>)))))))"

text \<open>
  The loop may run for ever (an empty container and a clock that stands still), so it
  is given fuel: \<open>None\<close> means the loop was still running when the fuel ran out.
\<close>

fun play_loop :: "nat \<Rightarrow> play_env \<Rightarrow> play_state \<Rightarrow> (loop_exit \<times> play_state) option" where
  "play_loop 0 env s = None"
| "play_loop (Suc fuel) env s =
     (case play_iter env s of
        Next s' \<Rightarrow> play_loop fuel env s'
      | Leave e s' \<Rightarrow> Some (e, s'))"

text \<open>
  Lines 448-460, reached when the loop is left by \<^verbatim>\<open>break\<close>. \<^verbatim>\<open>time.sleep\<close> raises
  \<^verbatim>\<open>ValueError\<close> on a negative argument. Closing the player's stdin has no effect on
  the state that is modelled, and a \<^verbatim>\<open>BrokenPipeError\<close> there is swallowed.
\<close>

definition play_finish :: "play_env \<Rightarrow> play_state \<Rightarrow> worker_outcome \<times> play_state" where
  "play_finish env s =
     (let (t_now, s1) = time_time env s;
          (time_to_wait, s2) =
            (if estimated_playback_end_on s1 > t_now
             then (let (t_then, s') = time_time env s1
                   in (py_int (estimated_playback_end_on s' - t_then), s'))
             else (0, s1));
          (t_shown, s3) = time_time env s2
      in if \<not> stop_marker s3 \<and> time_to_wait < 0 then (Raised OtherException, s3)
         else (Returned, s3\<lparr>stream_loaded := False\<rparr>))"

text \<open>
  The state in which the loop is entered (lines 391-416): the stream was reset and
  loaded afresh for the worker, the container is empty, and \<open>last_frame_on\<close> holds the
  first reading of the clock.
\<close>

definition play_init :: "play_env \<Rightarrow> bool \<Rightarrow> segment list \<Rightarrow> play_state" where
  "play_init env stop0 items =
     \<lparr>container = [], in_flight = items, stop_marker = stop0,
      estimated_playback_end_on = 0, next_frame_critical_time = 0,
      last_frame_on = py_int (clock env 0), player_stdin = [], stream_loaded = True,
      clock_reads = 1, iterations = 0\<rparr>"

text \<open>
  \<^verbatim>\<open>play\<close>: the worker thread produces its items, the scheduler consumes them as they
  arrive. The worker's own outcome stays on its thread: nothing in \<^verbatim>\<open>play\<close> reads it.
\<close>

definition play ::
  "(bytes \<Rightarrow> probe_result) \<Rightarrow> (nat \<Rightarrow> bool) \<Rightarrow> media_stream \<Rightarrow> int \<Rightarrow> int \<Rightarrow> bool
     \<Rightarrow> play_env \<Rightarrow> nat \<Rightarrow> (worker_outcome \<times> play_state) option" where
  "play probe halt strm chunk_size0 skip_at_end_bytes stop0 env fuel =
     (let (w_out, w) = fetch_thread_worker probe halt strm chunk_size0 skip_at_end_bytes
      in case play_loop fuel env (play_init env stop0 (media_container w)) of
           None \<Rightarrow> None
         | Some (Stall, s) \<Rightarrow> Some (Raised RuntimeError, s)
         | Some (SentinelSeen, s) \<Rightarrow> Some (play_finish env s)
         | Some (Interrupt, s) \<Rightarrow> Some (play_finish env s))"

section \<open>Invariants and conditions\<close>

text \<open>
  What every pass of the worker's loop keeps: the payloads published so far followed by
  the pending bytes are the bytes read so far; the bytes read so far followed by what
  the transport still holds are the stream's content; \<open>size_fetched\<close> counts the bytes
  read; the published durations add up to \<open>length_till_last_segment\<close>; and once a byte
  was read, \<open>length_till_last_segment\<close> is the probe's answer for the bytes read so far
  whenever the probe has one.
\<close>

definition worker_inv :: "(bytes \<Rightarrow> probe_result) \<Rightarrow> bytes \<Rightarrow> worker_state \<Rightarrow> bool" where
  "worker_inv probe all_bytes st \<longleftrightarrow>
     concat (map snd (media_container st)) @ pending_data st = full_data st \<and>
     full_data st @ buffer (w_stream st) = all_bytes \<and>
     size_fetched st = int (length (full_data st)) \<and>
     sum_list (map fst (media_container st)) = length_till_last_segment st \<and>
     (full_data st = [] \<and> length_till_last_segment st = 0 \<or>
      probe (full_data st) = Length (length_till_last_segment st) \<or>
      probe (full_data st) = OggVorbisHeaderError \<or>
      probe (full_data st) = OtherProbeError)"

text \<open>The state a pass of the loop ends in, whether the loop goes on or is left.\<close>

fun state_of :: "play_step \<Rightarrow> play_state" where
  "state_of (Next s) = s"
| "state_of (Leave e s) = s"

text \<open>
  What the scheduler has written to the player, followed by the payloads in the
  container and of the items still to arrive, is what the worker publishes.
\<close>

definition stdin_inv :: "bytes \<Rightarrow> play_state \<Rightarrow> bool" where
  "stdin_inv published s \<longleftrightarrow>
     player_stdin s @ concat (map snd (container s)) @ concat (map snd (in_flight s)) = published"

text \<open>
  The bulk fetcher compares the tolerance with its chunk size. The comparison speaks
  about the remaining bytes as long as the chunk size exceeds the tolerance whenever
  the remaining amount does.
\<close>

definition chunk_tracks_remaining :: "int \<Rightarrow> int \<Rightarrow> fetch_state \<Rightarrow> bool" where
  "chunk_tracks_remaining total_size skip_at_end_bytes st \<longleftrightarrow>
     skip_at_end_bytes < chunk_size st \<or>
     total_size - int (length (raw_media st)) \<le> skip_at_end_bytes"

text \<open>
  An undisturbed session: no interrupt is delivered, no write to the player fails, and
  the clock starts at a time that is not negative, never runs backwards and advances
  by less than a second between two readings. In such a session the watchdog stays
  quiet as long as \<open>last_frame_on\<close> was read from the clock at most six readings ago
  (\<open>fresh\<close>), which holds at the start and after every pass that found an item.
\<close>

definition quiet :: "play_env \<Rightarrow> bool" where
  "quiet env \<longleftrightarrow>
     (\<forall>k. \<not> keyboard_interrupt env k) \<and> (\<forall>k. \<not> broken_pipe env k) \<and>
     0 \<le> clock env 0 \<and>
     (\<forall>n. clock env n \<le> clock env (Suc n) \<and> clock env (Suc n) < clock env n + 1)"

definition fresh :: "play_env \<Rightarrow> play_state \<Rightarrow> bool" where
  "fresh env s \<longleftrightarrow>
     (\<exists>j. j \<le> clock_reads s \<and> clock_reads s \<le> j + 6 \<and>
          last_frame_on s = py_int (clock env j))"

section \<open>Sample inputs\<close>

text \<open>
  A probe that needs four bytes of header and then decodes a hundred bytes per second,
  a probe that only decodes whole pages of four bytes, streams of the byte \<open>a\<close>
  with a given declared size, content length and read script, streams with a given
  content, and a cancellation flag that is never set.
\<close>

definition length_probe :: "bytes \<Rightarrow> probe_result" where
  "length_probe b =
     (if length b < 4 then OggVorbisHeaderError else Length (real (length b) / 100))"

definition paged_probe :: "bytes \<Rightarrow> probe_result" where
  "paged_probe b =
     (if b \<noteq> [] \<and> length b mod 4 = 0 then Length (real (length b) / 100)
      else OggVorbisHeaderError)"

definition stream_of :: "int \<Rightarrow> nat \<Rightarrow> nat list \<Rightarrow> media_stream" where
  "stream_of declared n script =
     \<lparr>stream_size = declared, buffer = replicate n CHR ''a'', avail = script, requests = []\<rparr>"

definition stream_with :: "int \<Rightarrow> bytes \<Rightarrow> nat list \<Rightarrow> media_stream" where
  "stream_with declared content script =
     \<lparr>stream_size = declared, buffer = content, avail = script, requests = []\<rparr>"

definition never :: "nat \<Rightarrow> bool" where
  "never k = False"

text \<open>
  A clock that starts at 100 s and advances by a tenth of a second per reading, with
  every item of the worker in the container at the first pass; a clock that
  advances by a second per reading while nothing arrives; and a pass that finds a
  segment 200 ms after the deadline \<open>next_frame_critical_time = 100\<close>.
\<close>

definition prompt_env :: play_env where
  "prompt_env =
     \<lparr>clock = (\<lambda>n. 100 + real n / 10), arrivals = (\<lambda>k. 100),
      keyboard_interrupt = (\<lambda>k. False), broken_pipe = (\<lambda>k. False)\<rparr>"

definition stalled_env :: play_env where
  "stalled_env =
     \<lparr>clock = (\<lambda>n. 100 + real n), arrivals = (\<lambda>k. 0),
      keyboard_interrupt = (\<lambda>k. False), broken_pipe = (\<lambda>k. False)\<rparr>"

definition late_env :: play_env where
  "late_env =
     \<lparr>clock = (\<lambda>n. 100 + 2 / 10), arrivals = (\<lambda>k. 100),
      keyboard_interrupt = (\<lambda>k. False), broken_pipe = (\<lambda>k. False)\<rparr>"

definition late_state :: play_state where
  "late_state =
     \<lparr>container = [(1, ''ab'')], in_flight = [], stop_marker = False,
      estimated_playback_end_on = 105, next_frame_critical_time = 100,
      last_frame_on = 99, player_stdin = [], stream_loaded = True,
      clock_reads = 0, iterations = 0\<rparr>"

section \<open>Evaluation of the model on concrete inputs\<close>

lemmas worker_eval =
  fetch_thread_worker_def worker_init_def worker_loop.simps worker_body_def stream_read_def
  Let_def

lemmas fetch_eval =
  get_media_def fetch_init_def get_media_loop.simps get_media_body_def get_media_finish_def
  notified_def pg_notify_def reset_stream_def stream_read_def Let_def

lemmas play_eval =
  play_def play_init_def play_iter_def play_finish_def worker_appends_def time_time_def
  lag_compensation_def playback_start_def py_int_def Let_def

text \<open>Evaluation of the loop on numerals of fuel.\<close>

lemma play_loop_unfold:
  "play_loop fuel env s =
     (if fuel = 0 then None
      else (case play_iter env s of
              Next s' \<Rightarrow> play_loop (fuel - 1) env s'
            | Leave e s' \<Rightarrow> Some (e, s')))"
  by (cases fuel) (simp_all split: play_step.splits)

lemma quiet_prompt_env: "quiet prompt_env"
  by (simp add: quiet_def prompt_env_def field_simps)

section \<open>Properties of the fetch worker\<close>

lemma stream_read_buffer:
  "stream_read s n = (data, strm) \<Longrightarrow> data @ buffer strm = buffer s"
  by (auto simp: stream_read_def Let_def)

lemma worker_inv_loop_tests [simp]:
  "worker_inv probe all_bytes (st\<lparr>loop_tests := n\<rparr>) = worker_inv probe all_bytes st"
  by (simp add: worker_inv_def)

lemma worker_body_inv:
  assumes "worker_inv probe all_bytes st"
  shows "case worker_body probe total_size skip_at_end st of
           Continue st' \<Rightarrow> worker_inv probe all_bytes st'
         | Break st' \<Rightarrow> worker_inv probe all_bytes st'
         | Raise e st' \<Rightarrow> worker_inv probe all_bytes st'"
proof -
  obtain data strm where r: "stream_read (w_stream st) (chunk st) = (data, strm)"
    by force
  from stream_read_buffer [OF r] have b: "buffer (w_stream st) = data @ buffer strm"
    by simp
  from assms b show ?thesis
    by (auto simp add: worker_body_def worker_inv_def r Let_def split: probe_result.splits)
qed

lemma worker_loop_inv:
  "worker_inv probe all_bytes st \<Longrightarrow>
   worker_loop probe halt total_size skip_at_end st = (out, w) \<Longrightarrow>
   worker_inv probe all_bytes w"
proof (induction probe halt total_size skip_at_end st rule: worker_loop.induct)
  case (1 probe halt total_size skip_at_end st)
  show ?case
  proof (cases "size_fetched st < total_size \<and> \<not> halt (loop_tests st)")
    case False
    with "1.prems" show ?thesis
      by (auto simp: worker_loop.simps worker_inv_def)
  next
    case True
    let ?b = "worker_body probe total_size skip_at_end (st\<lparr>loop_tests := Suc (loop_tests st)\<rparr>)"
    from "1.prems"(1) have i: "worker_inv probe all_bytes (st\<lparr>loop_tests := Suc (loop_tests st)\<rparr>)"
      by simp
    show ?thesis
    proof (cases ?b)
      case (Continue st')
      with worker_body_inv [OF i, of total_size skip_at_end]
      have "worker_inv probe all_bytes st'" by simp
      moreover from True Continue "1.prems"(2)
      have "worker_loop probe halt total_size skip_at_end st' = (out, w)"
        by (simp add: worker_loop.simps [of probe halt total_size skip_at_end st])
      ultimately show ?thesis
        using "1.IH" [OF True Continue] by blast
    next
      case (Break st')
      with worker_body_inv [OF i, of total_size skip_at_end]
      have "worker_inv probe all_bytes st'" by simp
      moreover from True Break "1.prems"(2)
      have "w = st'\<lparr>media_container := media_container st' @ [(0, [])]\<rparr>"
        by (simp add: worker_loop.simps [of probe halt total_size skip_at_end st])
      ultimately show ?thesis
        by (auto simp: worker_inv_def)
    next
      case (Raise e st')
      with worker_body_inv [OF i, of total_size skip_at_end]
      have "worker_inv probe all_bytes st'" by simp
      moreover from True Raise "1.prems"(2)
      have "w = st'"
        by (simp add: worker_loop.simps [of probe halt total_size skip_at_end st])
      ultimately show ?thesis
        by simp
    qed
  qed
qed

lemma worker_body_sentinel:
  "worker_body probe total_size skip_at_end st = Raise StreamReadException st' \<Longrightarrow>
   \<exists>items. media_container st' = items @ [(0, [])]"
  by (auto simp add: worker_body_def Let_def split: prod.splits if_splits probe_result.splits)

lemma worker_loop_sentinel:
  "worker_loop probe halt total_size skip_at_end st = (out, w) \<Longrightarrow>
   out = Returned \<or> out = Raised StreamReadException \<Longrightarrow>
   \<exists>items. media_container w = items @ [(0, [])]"
proof (induction probe halt total_size skip_at_end st rule: worker_loop.induct)
  case (1 probe halt total_size skip_at_end st)
  show ?case
  proof (cases "size_fetched st < total_size \<and> \<not> halt (loop_tests st)")
    case False
    with "1.prems" show ?thesis
      by (auto simp: worker_loop.simps)
  next
    case True
    let ?b = "worker_body probe total_size skip_at_end (st\<lparr>loop_tests := Suc (loop_tests st)\<rparr>)"
    show ?thesis
    proof (cases ?b)
      case (Continue st')
      from True Continue "1.prems"(1)
      have "worker_loop probe halt total_size skip_at_end st' = (out, w)"
        by (simp add: worker_loop.simps [of probe halt total_size skip_at_end st])
      then show ?thesis
        using "1.IH" [OF True Continue] "1.prems"(2) by blast
    next
      case (Break st')
      with True "1.prems"(1)
      have "w = st'\<lparr>media_container := media_container st' @ [(0, [])]\<rparr>"
        by (simp add: worker_loop.simps [of probe halt total_size skip_at_end st])
      then show ?thesis by simp
    next
      case (Raise e st')
      with True "1.prems"(1)
      have "w = st'" and "out = Raised e"
        by (simp_all add: worker_loop.simps [of probe halt total_size skip_at_end st])
      with "1.prems"(2) Raise worker_body_sentinel show ?thesis
        by blast
    qed
  qed
qed

lemma worker_init_inv: "worker_inv probe (buffer strm) (worker_init strm chunk0)"
  by (simp add: worker_inv_def worker_init_def)

lemma worker_loop_halt:
  "halt (loop_tests st) \<Longrightarrow>
   worker_loop probe halt total_size skip_at_end st =
     (Returned, st\<lparr>loop_tests := Suc (loop_tests st),
                   media_container := media_container st @ [(0, [])]\<rparr>)"
  by (simp add: worker_loop.simps)

section \<open>Properties of the bulk fetcher\<close>

lemma list_index_member:
  "x \<in> set l \<Longrightarrow> list_index l x \<noteq> None"
  by (induction l) (auto split: option.splits)

lemma list_pop_index:
  "list_index l x = Some i \<Longrightarrow> list_pop l i = remove1 x l"
  by (induction l arbitrary: i) (auto split: if_splits option.splits)

text \<open>The read loop leaves \<open>pg_given\<close> as it is.\<close>

lemma get_media_body_pg_given:
  "case get_media_body cancel total_size skip_at_end_bytes st of
     Continue st' \<Rightarrow> pg_given st' = pg_given st
   | Break st' \<Rightarrow> pg_given st' = pg_given st
   | Raise e st' \<Rightarrow> pg_given st' = pg_given st"
proof -
  obtain data strm where "stream_read (f_stream st) (chunk_size st) = (data, strm)"
    by force
  then show ?thesis
    by (auto simp add: get_media_body_def notified_def pg_notify_def reset_stream_def Let_def
             split: if_splits)
qed

lemma get_media_loop_pg_given:
  "get_media_loop media_id cancel total_size skip_at_end_bytes st = (r, st') \<Longrightarrow>
   pg_given st' = pg_given st"
proof (induction media_id cancel total_size skip_at_end_bytes st rule: get_media_loop.induct)
  case (1 media_id cancel total_size skip_at_end_bytes st)
  note body = get_media_body_pg_given
    [where cancel = cancel and total_size = total_size
       and skip_at_end_bytes = skip_at_end_bytes and st = st]
  show ?case
  proof (cases "int (length (raw_media st)) < total_size \<and> media_id \<notin> set (stop_check_list st)")
    case False
    with "1.prems" show ?thesis
      by (simp add: get_media_loop.simps)
  next
    case True
    show ?thesis
    proof (cases "get_media_body cancel total_size skip_at_end_bytes st")
      case (Continue st1)
      with True "1.prems"
      have "get_media_loop media_id cancel total_size skip_at_end_bytes st1 = (r, st')"
        by (simp add: get_media_loop.simps [of media_id cancel total_size skip_at_end_bytes st])
      with "1.IH" [OF True Continue] body Continue show ?thesis by simp
    next
      case (Break st1)
      with True "1.prems" body show ?thesis
        by (simp add: get_media_loop.simps [of media_id cancel total_size skip_at_end_bytes st])
    next
      case (Raise e1 st1)
      with True "1.prems" body show ?thesis
        by (simp add: get_media_loop.simps [of media_id cancel total_size skip_at_end_bytes st])
    qed
  qed
qed

text \<open>
  The read loop raises only after a read that added nothing, with more than the
  tolerance still unread. With a callable callback it raises \<^verbatim>\<open>StreamReadException\<close>,
  after the stream was reset; with \<^verbatim>\<open>pg_notify = None\<close> the call of line 276 raises
  \<^verbatim>\<open>TypeError\<close> first, and the stream is not reset.
\<close>

lemma get_media_body_raise:
  assumes "get_media_body cancel total_size skip_at_end_bytes st = Raise e st'"
  shows "raw_media st' = raw_media st \<and>
         skip_at_end_bytes < total_size - int (length (raw_media st')) \<and>
         (if pg_given st then e = StreamReadException \<and> \<not> handle_valid st'
          else e = TypeError \<and> handle_valid st' = handle_valid st)"
proof -
  obtain data strm where r: "stream_read (f_stream st) (chunk_size st) = (data, strm)"
    by force
  with assms show ?thesis
    by (auto simp add: get_media_body_def notified_def pg_notify_def reset_stream_def Let_def
             split: if_splits)
qed

lemma get_media_loop_raise:
  "get_media_loop media_id cancel total_size skip_at_end_bytes st = (Some e, st') \<Longrightarrow>
   skip_at_end_bytes < total_size - int (length (raw_media st')) \<and>
   (if pg_given st then e = StreamReadException \<and> \<not> handle_valid st' else e = TypeError)"
proof (induction media_id cancel total_size skip_at_end_bytes st rule: get_media_loop.induct)
  case (1 media_id cancel total_size skip_at_end_bytes st)
  note body = get_media_body_pg_given
    [where cancel = cancel and total_size = total_size
       and skip_at_end_bytes = skip_at_end_bytes and st = st]
  show ?case
  proof (cases "int (length (raw_media st)) < total_size \<and> media_id \<notin> set (stop_check_list st)")
    case False
    with "1.prems" show ?thesis
      by (simp add: get_media_loop.simps)
  next
    case True
    show ?thesis
    proof (cases "get_media_body cancel total_size skip_at_end_bytes st")
      case (Continue st1)
      with True "1.prems"
      have "get_media_loop media_id cancel total_size skip_at_end_bytes st1 = (Some e, st')"
        by (simp add: get_media_loop.simps [of media_id cancel total_size skip_at_end_bytes st])
      with "1.IH" [OF True Continue] body Continue show ?thesis by simp
    next
      case (Break st1)
      with True "1.prems" show ?thesis
        by (simp add: get_media_loop.simps [of media_id cancel total_size skip_at_end_bytes st])
    next
      case (Raise e1 st1)
      with True "1.prems" have "e1 = e" and "st1 = st'"
        by (simp_all add: get_media_loop.simps [of media_id cancel total_size skip_at_end_bytes st])
      with get_media_body_raise [OF Raise] show ?thesis by auto
    qed
  qed
qed

text \<open>
  Where the chunk size tracks the remaining amount, an empty read with more than the
  tolerance unread does raise. The condition holds at the start when the chunk size
  asked for exceeds the tolerance, and every pass keeps it.
\<close>

lemma get_media_body_zero_read:
  assumes r: "stream_read (f_stream st) (chunk_size st) = ([], strm)"
      and k: "chunk_tracks_remaining total_size skip_at_end_bytes st"
      and more: "skip_at_end_bytes < total_size - int (length (raw_media st))"
  shows "\<exists>st'. get_media_body cancel total_size skip_at_end_bytes st =
                Raise (if pg_given st then StreamReadException else TypeError) st'"
  using assms
  by (simp add: get_media_body_def chunk_tracks_remaining_def notified_def pg_notify_def
                reset_stream_def Let_def)

lemma get_media_body_tracks:
  assumes "get_media_body cancel total_size skip_at_end_bytes st = Continue st'"
      and "chunk_tracks_remaining total_size skip_at_end_bytes st"
  shows "chunk_tracks_remaining total_size skip_at_end_bytes st'"
proof -
  obtain data strm where r: "stream_read (f_stream st) (chunk_size st) = (data, strm)"
    by force
  with assms show ?thesis
    by (auto simp add: get_media_body_def chunk_tracks_remaining_def notified_def pg_notify_def
                       reset_stream_def Let_def split: if_splits)
qed

lemma fetch_init_tracks:
  "skip_at_end_bytes < chunk_size0 \<Longrightarrow>
   chunk_tracks_remaining total_size skip_at_end_bytes
     (fetch_init strm chunk_size0 stop_list given)"
  by (simp add: chunk_tracks_remaining_def fetch_init_def)

text \<open>The bulk fetcher asks for 1024 and then for the 476 bytes that remain of 1500.\<close>

lemma bulk_fetch_final_read_asks_remaining:
  "requests (f_stream (snd (get_media ''id'' (\<lambda>k. []) (stream_of 1500 1500 [1024, 1024])
                              1024 [] True 167)))
     = [1024, 476]"
  by (simp add: fetch_eval stream_of_def)

text \<open>
  With a callable callback, cancellation takes precedence over completion: if the
  media id is in the stop list when the read loop is left (by its condition or by
  \<^verbatim>\<open>break\<close>), \<^verbatim>\<open>MediaFetchInterruptedException\<close> is raised, no bytes are returned
  whatever was read, the first occurrence of the id is removed from the shared list,
  the callback is told \<^verbatim>\<open>Cancelled\<close> and the stream is reset. In the sample run all ten
  bytes of the stream were read and the id was put on the list during the last pass.
\<close>

lemma cancellation_beats_completion:
  assumes loop: "get_media_loop media_id cancel (stream_size strm) skip_at_end_bytes
                   (fetch_init strm chunk_size0 stop_list True) = (None, st)"
      and listed: "media_id \<in> set (stop_check_list st)"
  shows "fst (get_media media_id cancel strm chunk_size0 stop_list True skip_at_end_bytes)
           = Inl MediaFetchInterruptedException \<and>
         stop_check_list
           (snd (get_media media_id cancel strm chunk_size0 stop_list True skip_at_end_bytes))
           = remove1 media_id (stop_check_list st) \<and>
         \<not> handle_valid
             (snd (get_media media_id cancel strm chunk_size0 stop_list True skip_at_end_bytes)) \<and>
         pg_log (snd (get_media media_id cancel strm chunk_size0 stop_list True skip_at_end_bytes))
           = pg_log st @ [(0, 1, ''Cancelled'')]"
proof -
  from list_index_member [OF listed]
  obtain i where i: "list_index (stop_check_list st) media_id = Some i"
    by (cases "list_index (stop_check_list st) media_id") simp_all
  from list_pop_index [OF i]
  have p: "list_pop (stop_check_list st) i = remove1 media_id (stop_check_list st)" .
  from get_media_loop_pg_given [OF loop] have g: "pg_given st"
    by (simp add: fetch_init_def)
  from loop have "get_media media_id cancel strm chunk_size0 stop_list True skip_at_end_bytes
                    = get_media_finish media_id st"
    by (simp add: get_media_def)
  with listed i p g show ?thesis
    by (simp add: get_media_finish_def notified_def pg_notify_def reset_stream_def Let_def)
qed

lemma cancellation_beats_completion_example:
  "raw_media (snd (get_media_loop ''id'' (\<lambda>k. if k = 1 then [''id''] else []) 10 167
                     (fetch_init (stream_with 10 ''0123456789'' [6, 6]) 6 [] True)))
     = ''0123456789'' \<and>
   fst (get_media ''id'' (\<lambda>k. if k = 1 then [''id''] else [])
          (stream_with 10 ''0123456789'' [6, 6]) 6 [] True 167)
     = Inl MediaFetchInterruptedException \<and>
   stop_check_list (snd (get_media ''id'' (\<lambda>k. if k = 1 then [''id''] else [])
                           (stream_with 10 ''0123456789'' [6, 6]) 6 [] True 167)) = [] \<and>
   \<not> handle_valid (snd (get_media ''id'' (\<lambda>k. if k = 1 then [''id''] else [])
                           (stream_with 10 ''0123456789'' [6, 6]) 6 [] True 167))"
  by (simp add: fetch_eval stream_with_def)

section \<open>Properties of the scheduler\<close>

lemma time_time_frame [simp]:
  "container (snd (time_time env s)) = container s"
  "in_flight (snd (time_time env s)) = in_flight s"
  "stop_marker (snd (time_time env s)) = stop_marker s"
  "player_stdin (snd (time_time env s)) = player_stdin s"
  "stream_loaded (snd (time_time env s)) = stream_loaded s"
  "iterations (snd (time_time env s)) = iterations s"
  "last_frame_on (snd (time_time env s)) = last_frame_on s"
  "next_frame_critical_time (snd (time_time env s)) = next_frame_critical_time s"
  "estimated_playback_end_on (snd (time_time env s)) = estimated_playback_end_on s"
  "clock_reads (snd (time_time env s)) = Suc (clock_reads s)"
  "fst (time_time env s) = clock env (clock_reads s)"
  by (simp_all add: time_time_def)

lemma lag_compensation_frame [simp]:
  "container (lag_compensation env s) = container s"
  "in_flight (lag_compensation env s) = in_flight s"
  "stop_marker (lag_compensation env s) = stop_marker s"
  "player_stdin (lag_compensation env s) = player_stdin s"
  "stream_loaded (lag_compensation env s) = stream_loaded s"
  "iterations (lag_compensation env s) = iterations s"
  "last_frame_on (lag_compensation env s) = last_frame_on s"
  "next_frame_critical_time (lag_compensation env s) = next_frame_critical_time s"
  by (simp_all add: lag_compensation_def time_time_def Let_def)

lemma playback_start_frame [simp]:
  "container (playback_start env s) = container s"
  "in_flight (playback_start env s) = in_flight s"
  "stop_marker (playback_start env s) = stop_marker s"
  "player_stdin (playback_start env s) = player_stdin s"
  "stream_loaded (playback_start env s) = stream_loaded s"
  "iterations (playback_start env s) = iterations s"
  "last_frame_on (playback_start env s) = last_frame_on s"
  "next_frame_critical_time (playback_start env s) = next_frame_critical_time s"
  by (simp_all add: playback_start_def time_time_def Let_def)

lemma play_iter_stop_marker:
  "stop_marker s \<Longrightarrow> stop_marker (state_of (play_iter env s))"
  by (simp add: play_iter_def worker_appends_def Let_def split_beta split: list.splits)

lemma play_finish_stop_marker:
  "stop_marker (snd (play_finish env s)) = stop_marker s"
  by (simp add: play_finish_def Let_def split_beta)

lemma play_loop_stop_marker:
  "stop_marker s \<Longrightarrow> play_loop fuel env s = Some (e, s') \<Longrightarrow> stop_marker s'"
proof (induction fuel arbitrary: s)
  case 0
  then show ?case by simp
next
  case (Suc fuel)
  from Suc.prems(1) have m: "stop_marker (state_of (play_iter env s))"
    by (rule play_iter_stop_marker)
  show ?case
  proof (cases "play_iter env s")
    case (Next s1)
    with Suc.prems(2) have "play_loop fuel env s1 = Some (e, s')" by simp
    moreover from m Next have "stop_marker s1" by simp
    ultimately show ?thesis by (rule Suc.IH [rotated])
  next
    case (Leave e1 s1)
    with Suc.prems(2) m show ?thesis by simp
  qed
qed

lemma worker_appends_stdin:
  "stdin_inv published s \<Longrightarrow> stdin_inv published (worker_appends env s)"
proof -
  have "concat (map snd (take n (in_flight s))) @ concat (map snd (drop n (in_flight s)))
          = concat (map snd (in_flight s))" for n
    by (metis append_take_drop_id concat_append map_append)
  then show "stdin_inv published s \<Longrightarrow> stdin_inv published (worker_appends env s)"
    by (simp add: stdin_inv_def worker_appends_def Let_def)
qed

lemma play_iter_stdin:
  assumes "stdin_inv published s"
  shows "case play_iter env s of
           Next s' \<Rightarrow> stdin_inv published s'
         | Leave e s' \<Rightarrow> prefix (player_stdin s') published"
proof -
  from assms have "stdin_inv published (worker_appends env s)"
    by (rule worker_appends_stdin)
  then show ?thesis
    by (cases "container (worker_appends env s)")
       (auto simp add: play_iter_def stdin_inv_def Let_def split_beta prefix_def)
qed

lemma play_loop_stdin:
  "stdin_inv published s \<Longrightarrow> play_loop fuel env s = Some (e, s') \<Longrightarrow>
   prefix (player_stdin s') published"
proof (induction fuel arbitrary: s)
  case 0
  then show ?case by simp
next
  case (Suc fuel)
  note step = play_iter_stdin [OF Suc.prems(1), of env]
  show ?case
  proof (cases "play_iter env s")
    case (Next s1)
    with Suc.prems(2) have "play_loop fuel env s1 = Some (e, s')" by simp
    moreover from step Next have "stdin_inv published s1" by simp
    ultimately show ?thesis by (rule Suc.IH [rotated])
  next
    case (Leave e1 s1)
    with Suc.prems(2) step show ?thesis by simp
  qed
qed

lemma play_init_stdin:
  "stdin_inv (concat (map snd items)) (play_init env stop0 items)"
  by (simp add: stdin_inv_def play_init_def)

text \<open>What \<^verbatim>\<open>play\<close> guarantees about the stream handle when it returns.\<close>

lemma play_finish_resets_stream:
  "fst (play_finish env s) = Returned \<Longrightarrow> \<not> stream_loaded (snd (play_finish env s))"
  by (auto simp add: play_finish_def Let_def split_beta split: if_splits)

lemma play_returned_resets_stream:
  assumes "play probe halt strm chunk_size0 skip_at_end_bytes stop0 env fuel = Some (Returned, s)"
  shows "\<not> stream_loaded s"
proof -
  obtain w_out w where
    w: "fetch_thread_worker probe halt strm chunk_size0 skip_at_end_bytes = (w_out, w)"
    by force
  let ?l = "play_loop fuel env (play_init env stop0 (media_container w))"
  from assms w obtain e s' where l: "?l = Some (e, s')"
    by (cases ?l) (auto simp: play_def)
  with assms w have "e \<noteq> Stall" and "play_finish env s' = (Returned, s)"
    by (cases e; simp add: play_def)+
  with play_finish_resets_stream [of env s'] show ?thesis
    by simp
qed

text \<open>
  A pass that finds a segment after its deadline plus the slack: the estimated end of
  playback grows by the whole overrun and by the duration of the segment.
\<close>

lemma late_pass_extends_end:
  assumes "\<not> keyboard_interrupt env (iterations s)" and "\<not> broken_pipe env (iterations s)"
      and "\<not> py_int (clock env (clock_reads s)) - last_frame_on s > 15"
      and "container (worker_appends env s) = (d, payload) # rest" and "payload \<noteq> []"
      and "next_frame_critical_time s \<noteq> 0"
      and "clock env (Suc (Suc (clock_reads s))) > next_frame_critical_time s + 3 / 100"
      and "estimated_playback_end_on s +
             (clock env (Suc (Suc (Suc (clock_reads s)))) - next_frame_critical_time s) \<noteq> 0"
  shows "\<exists>s'. play_iter env s = Next s' \<and>
           estimated_playback_end_on s' =
             estimated_playback_end_on s +
               (clock env (Suc (Suc (Suc (clock_reads s)))) - next_frame_critical_time s) + d \<and>
           player_stdin s' = player_stdin s @ payload"
proof -
  have a: "clock_reads (worker_appends env s) = clock_reads s"
    "last_frame_on (worker_appends env s) = last_frame_on s"
    "player_stdin (worker_appends env s) = player_stdin s"
    "estimated_playback_end_on (worker_appends env s) = estimated_playback_end_on s"
    "next_frame_critical_time (worker_appends env s) = next_frame_critical_time s"
    by (simp_all add: worker_appends_def Let_def)
  from assms show ?thesis
    by (simp add: play_iter_def lag_compensation_def playback_start_def time_time_def
                  Let_def split_beta a)
qed

text \<open>The scheduler in an undisturbed session.\<close>

lemma quiet_clock_span:
  assumes "quiet env"
  shows "clock env j \<le> clock env (j + m) \<and> clock env (j + m) \<le> clock env j + real m"
proof (induction m)
  case 0
  show ?case by simp
next
  case (Suc m)
  from assms have "clock env (j + m) \<le> clock env (Suc (j + m))"
    and "clock env (Suc (j + m)) < clock env (j + m) + 1"
    by (simp_all add: quiet_def)
  with Suc show ?case by simp
qed

lemma quiet_clock_nonneg:
  assumes "quiet env"
  shows "0 \<le> clock env n"
proof -
  from assms have "0 \<le> clock env 0" by (simp add: quiet_def)
  moreover from quiet_clock_span [OF assms, of 0 n] have "clock env 0 \<le> clock env n" by simp
  ultimately show ?thesis by simp
qed

lemma py_int_span:
  assumes "0 \<le> a" and "a \<le> b" and "b \<le> a + real m"
  shows "py_int b - py_int a \<le> int m"
proof -
  from assms have "\<lfloor>b\<rfloor> \<le> \<lfloor>a + real m\<rfloor>" by (intro floor_mono)
  also have "\<lfloor>a + real m\<rfloor> = \<lfloor>a\<rfloor> + int m" by simp
  finally show ?thesis using assms by (simp add: py_int_def)
qed

lemma py_int_nonneg:
  assumes "-1 < x"
  shows "0 \<le> py_int x"
proof (cases "0 \<le> x")
  case True
  then show ?thesis by (simp add: py_int_def)
next
  case False
  with assms have "0 \<le> \<lceil>x\<rceil>" by linarith
  with False show ?thesis by (simp add: py_int_def)
qed

lemma fresh_watchdog:
  assumes q: "quiet env" and f: "fresh env s"
  shows "py_int (clock env (clock_reads s)) - last_frame_on s \<le> 15"
proof -
  from f obtain j where j: "j \<le> clock_reads s" "clock_reads s \<le> j + 6"
    and l: "last_frame_on s = py_int (clock env j)"
    by (auto simp: fresh_def)
  define m where "m = clock_reads s - j"
  with j have r: "clock_reads s = j + m" and m: "m \<le> 6" by simp_all
  from quiet_clock_span [OF q, of j m] quiet_clock_nonneg [OF q, of j]
  have "py_int (clock env (j + m)) - py_int (clock env j) \<le> int m"
    by (intro py_int_span) simp_all
  with r l m show ?thesis by simp
qed

lemma lag_compensation_reads:
  "clock_reads s \<le> clock_reads (lag_compensation env s) \<and>
   clock_reads (lag_compensation env s) \<le> clock_reads s + 3"
  by (simp add: lag_compensation_def time_time_def Let_def)

lemma playback_start_reads:
  "clock_reads s \<le> clock_reads (playback_start env s) \<and>
   clock_reads (playback_start env s) \<le> clock_reads s + 1"
  by (simp add: playback_start_def time_time_def Let_def)

lemma play_iter_quiet:
  assumes q: "quiet env" and f: "fresh env s"
      and c: "container (worker_appends env s) = (d, payload) # rest"
  shows "\<exists>s'. play_iter env s = (if payload = [] then Leave SentinelSeen s' else Next s') \<and>
              container s' = rest \<and> in_flight s' = in_flight (worker_appends env s) \<and>
              player_stdin s' = player_stdin s @ payload \<and>
              stop_marker s' = stop_marker s \<and> stream_loaded s' = stream_loaded s \<and>
              fresh env s'"
proof -
  let ?a = "worker_appends env s"
  have a: "clock_reads ?a = clock_reads s" "last_frame_on ?a = last_frame_on s"
    "player_stdin ?a = player_stdin s" "stop_marker ?a = stop_marker s"
    "stream_loaded ?a = stream_loaded s"
    by (simp_all add: worker_appends_def Let_def)
  from q have k: "\<not> keyboard_interrupt env (iterations s)" and b: "\<not> broken_pipe env (iterations s)"
    by (simp_all add: quiet_def)
  from fresh_watchdog [OF q f] have w: "\<not> py_int (clock env (clock_reads s)) - last_frame_on s > 15"
    by simp
  let ?s2 = "(snd (time_time env (snd (time_time env ?a))))
               \<lparr>last_frame_on := py_int (clock env (Suc (clock_reads s)))\<rparr>"
  let ?s3 = "playback_start env (lag_compensation env ?s2)"
  have r2: "clock_reads ?s2 = clock_reads s + 2"
    by (simp add: a)
  from lag_compensation_reads [of ?s2 env] playback_start_reads [of "lag_compensation env ?s2" env] r2
  have r3: "clock_reads s + 2 \<le> clock_reads ?s3" "clock_reads ?s3 \<le> clock_reads s + 6"
    by simp_all
  have l3: "last_frame_on ?s3 = py_int (clock env (Suc (clock_reads s)))"
    by simp
  show ?thesis
  proof (cases "payload = []")
    case True
    let ?s' = "?s3\<lparr>container := rest\<rparr>"
    from k w c True have "play_iter env s = Leave SentinelSeen ?s'"
      by (simp add: play_iter_def Let_def split_beta a)
    moreover from r3 l3 have "fresh env ?s'"
      unfolding fresh_def by (intro exI [of _ "Suc (clock_reads s)"]) simp
    ultimately show ?thesis
      using True by (intro exI [of _ ?s']) (simp add: a)
  next
    case False
    let ?s6 = "?s3\<lparr>container := rest,
                     estimated_playback_end_on := estimated_playback_end_on ?s3 + d,
                     player_stdin := player_stdin ?s3 @ payload\<rparr>"
    let ?s' = "(snd (time_time env ?s6))
                 \<lparr>next_frame_critical_time := clock env (clock_reads ?s6) + d\<rparr>"
    from k b w c False have "play_iter env s = Next ?s'"
      by (simp add: play_iter_def Let_def split_beta a)
    moreover from r3 l3 have "fresh env ?s'"
      unfolding fresh_def by (intro exI [of _ "Suc (clock_reads s)"]) simp
    ultimately show ?thesis
      using False by (intro exI [of _ ?s']) (simp add: a)
  qed
qed

lemma play_loop_drains:
  assumes q: "quiet env"
  shows "fresh env s \<Longrightarrow> (\<forall>x\<in>set xs. snd x \<noteq> []) \<Longrightarrow>
         container (worker_appends env s) = xs @ (d, []) # rest \<Longrightarrow>
         \<exists>s'. play_loop (Suc (length xs)) env s = Some (SentinelSeen, s') \<and>
              player_stdin s' = player_stdin s @ concat (map snd xs) \<and>
              stop_marker s' = stop_marker s \<and> stream_loaded s' = stream_loaded s"
proof (induction xs arbitrary: s rest)
  case Nil
  then have "container (worker_appends env s) = (d, []) # rest" by simp
  from play_iter_quiet [OF q Nil.prems(1) this]
  obtain s' where "play_iter env s = Leave SentinelSeen s'"
    and "player_stdin s' = player_stdin s" and "stop_marker s' = stop_marker s"
    and "stream_loaded s' = stream_loaded s"
    by auto
  then show ?case by simp
next
  case (Cons x xs)
  obtain dx px where x: "x = (dx, px)" by (cases x)
  with Cons.prems(2) have px: "px \<noteq> []" by simp
  from Cons.prems(3) x
  have "container (worker_appends env s) = (dx, px) # (xs @ (d, []) # rest)" by simp
  from play_iter_quiet [OF q Cons.prems(1) this] px
  obtain s1 where step: "play_iter env s = Next s1"
    and c1: "container s1 = xs @ (d, []) # rest"
    and p1: "player_stdin s1 = player_stdin s @ px"
    and m1: "stop_marker s1 = stop_marker s" and l1: "stream_loaded s1 = stream_loaded s"
    and f1: "fresh env s1"
    by auto
  from c1 have "container (worker_appends env s1) =
      xs @ (d, []) # (rest @ take (arrivals env (iterations s1)) (in_flight s1))"
    by (simp add: worker_appends_def Let_def)
  moreover from Cons.prems(2) have "\<forall>x\<in>set xs. snd x \<noteq> []" by simp
  ultimately obtain s' where "play_loop (Suc (length xs)) env s1 = Some (SentinelSeen, s')"
    and "player_stdin s' = player_stdin s1 @ concat (map snd xs)"
    and "stop_marker s' = stop_marker s1" and "stream_loaded s' = stream_loaded s1"
    using Cons.IH [OF f1] by metis
  with step p1 m1 l1 x show ?case by simp
qed

lemma play_finish_quiet:
  assumes q: "quiet env"
  shows "fst (play_finish env s) = Returned \<and> \<not> stream_loaded (snd (play_finish env s)) \<and>
         player_stdin (snd (play_finish env s)) = player_stdin s"
proof -
  let ?r = "clock_reads s"
  from q have "clock env (Suc ?r) < clock env ?r + 1" by (simp add: quiet_def)
  then have "0 \<le> py_int (estimated_playback_end_on s - clock env (Suc ?r))"
    if "clock env ?r < estimated_playback_end_on s"
    using that by (intro py_int_nonneg) simp
  then show ?thesis
    by (auto simp add: play_finish_def time_time_def Let_def split_beta)
qed

lemma first_empty_payload:
  fixes items :: "segment list"
  assumes "items = pre @ [(0, [])]"
  shows "\<exists>d rest. items = takeWhile (\<lambda>seg. snd seg \<noteq> []) items @ (d, []) # rest"
proof -
  let ?P = "\<lambda>seg :: segment. snd seg \<noteq> []"
  from assms have "(0, []) \<in> set items" by simp
  then have "\<exists>x\<in>set items. snd x = []"
    by (intro bexI [of _ "(0, [])"]) simp_all
  then have "dropWhile ?P items \<noteq> []"
    by (simp add: dropWhile_eq_Nil_conv)
  then obtain y rest where y: "dropWhile ?P items = y # rest"
    by (cases "dropWhile ?P items") simp_all
  then have "\<not> ?P y" using hd_dropWhile [of ?P items] by auto
  then obtain d where "y = (d, [])" by (cases y) simp
  with y have "items = takeWhile ?P items @ (d, []) # rest"
    using takeWhile_dropWhile_id [of ?P items] by simp
  then show ?thesis by blast
qed

section \<open>Claims about the fetch worker\<close>

text \<open>
  Claim C3: every worker run that ends (normally, by the tolerance, by cancellation or
  by \<^verbatim>\<open>StreamReadException\<close>) appends exactly one item \<^verbatim>\<open>(0.0, b'')\<close>, and appends it
  last. The code appends the sentinel last, and it can append the same item before:
  a stream of declared size 300 hands out 200 bytes and then nothing, the chunk size
  is 200 and the tolerance 167. The second read returns no bytes with 100 bytes left,
  which is within the tolerance but below the chunk size still in force, so the pass
  falls through to the probe, which decodes the unchanged 200 bytes again, and the
  worker publishes a segment of duration 0 and empty payload. The third read returns
  nothing with the chunk size shrunk to 100, the loop breaks, and the sentinel follows.
  When the third read returns the last 100 bytes instead, they are published after
  the empty item, and the scheduler, which takes the first empty payload for the
  sentinel, never writes them to the player.
\<close>

theorem worker_publishes_sentinel_twice:
  "fetch_thread_worker length_probe never (stream_of 300 300 [200, 0, 0]) 200 167 =
     (Returned,
      \<lparr>w_stream = \<lparr>stream_size = 300, buffer = replicate 100 CHR ''a'', avail = [],
                   requests = [200, 200, 100]\<rparr>,
       chunk = 100, size_fetched = 200, pending_data = [],
       full_data = replicate 200 CHR ''a'', length_till_last_segment = 2,
       media_container = [(2, replicate 200 CHR ''a''), (0, []), (0, [])],
       loop_tests = 3\<rparr>) \<and>
   media_container
     (snd (fetch_thread_worker length_probe never (stream_of 300 300 [200, 0, 100]) 200 167)) =
     [(2, replicate 200 CHR ''a''), (0, []), (1, replicate 100 CHR ''a''), (0, [])] \<and>
   map_option (\<lambda>(r, s). (r, player_stdin s))
     (play length_probe never (stream_of 300 300 [200, 0, 100]) 200 167 False prompt_env 2) =
     Some (Returned, replicate 200 CHR ''a'')"
  by (simp add: worker_eval play_eval play_loop_unfold length_probe_def never_def
                stream_of_def prompt_env_def)



text \<open>
  Claim C7: the worker shrinks the chunk size so that its final read asks for exactly
  the bytes that remain, never for more than the declared size leaves. The worker
  compares the chunk size with \<^verbatim>\<open>total_size - size_fetched\<close> before it adds the bytes
  just read to \<^verbatim>\<open>size_fetched\<close>, so the shrinking lags one read behind: with a declared
  size of 1500 and a chunk size of 1024 the second and final read asks for 1024 bytes
  when 476 remain.
\<close>

theorem worker_final_read_asks_past_size:
  "requests (w_stream (snd (fetch_thread_worker length_probe never
                              (stream_of 1500 1500 [1024, 1024]) 1024 167)))
     = [1024, 1024] \<and>
   size_fetched (snd (fetch_thread_worker length_probe never
                        (stream_of 1500 1500 [1024, 1024]) 1024 167)) = 1500"
  by (simp add: worker_eval length_probe_def never_def stream_of_def)

text \<open>
  Claim C8: once the worker observes the cancellation flag true, it issues no further
  read on the media stream; and within one playback session the flag, once true, is
  never reset to false. In whatever state the worker evaluates its loop condition, if
  the flag reads true it returns at once: the stream, with its log of requests, is
  the one it had, and the only change is the appended sentinel. The worker never
  writes the flag. The scheduler only ever sets it: after a pass of its loop, after
  the loop as a whole and after the code that follows the loop, a flag that was true
  is still true.
\<close>

theorem cancellation_flag_stops_reads_and_stays_set:
  "(halt (loop_tests st) \<longrightarrow>
      worker_loop probe halt total_size skip_at_end st =
        (Returned, st\<lparr>loop_tests := Suc (loop_tests st),
                      media_container := media_container st @ [(0, [])]\<rparr>)) \<and>
   (stop_marker s \<longrightarrow>
      stop_marker (state_of (play_iter env s)) \<and>
      stop_marker (snd (play_finish env s)) \<and>
      (\<forall>fuel e s'. play_loop fuel env s = Some (e, s') \<longrightarrow> stop_marker s'))"
proof (intro conjI impI allI)
  assume "halt (loop_tests st)"
  then show "worker_loop probe halt total_size skip_at_end st =
        (Returned, st\<lparr>loop_tests := Suc (loop_tests st),
                      media_container := media_container st @ [(0, [])]\<rparr>)"
    by (rule worker_loop_halt)
next
  assume "stop_marker s"
  then show "stop_marker (state_of (play_iter env s))"
    by (rule play_iter_stop_marker)
next
  assume "stop_marker s"
  then show "stop_marker (snd (play_finish env s))"
    by (simp add: play_finish_stop_marker)
next
  fix fuel e s'
  assume "stop_marker s" and "play_loop fuel env s = Some (e, s')"
  then show "stop_marker s'"
    by (rule play_loop_stop_marker)
qed

theorem cancellation_flag_witness:
  "worker_loop length_probe (\<lambda>k. True) 300 167 (worker_init (stream_of 300 300 [200, 200]) 200) =
     (Returned,
      (worker_init (stream_of 300 300 [200, 200]) 200)
        \<lparr>loop_tests := 1, media_container := [(0, [])]\<rparr>) \<and>
   stop_marker (state_of (play_iter prompt_env (play_init prompt_env True [(0, [])]))) \<and>
   stop_marker (snd (play_finish prompt_env (play_init prompt_env True [(0, [])]))) \<and>
   map_option (\<lambda>(e, s'). (e, stop_marker s'))
     (play_loop 2 prompt_env (play_init prompt_env True [(0, [])])) = Some (SentinelSeen, True)"
proof -
  let ?st = "worker_init (stream_of 300 300 [200, 200]) 200"
  let ?s = "play_init prompt_env True [(0, [])]"
  obtain s' where l: "play_loop 2 prompt_env ?s = Some (SentinelSeen, s')"
    by (simp add: play_eval play_loop_unfold prompt_env_def)
  have h: "(\<lambda>k. True) (loop_tests ?st)"
    by simp
  have m: "stop_marker ?s"
    by (simp add: play_init_def)
  note T = cancellation_flag_stops_reads_and_stays_set
         [of "\<lambda>k. True" ?st length_probe 300 167 ?s prompt_env]
  from T [THEN conjunct1, rule_format, OF h]
  have a: "worker_loop length_probe (\<lambda>k. True) 300 167 ?st =
        (Returned, ?st\<lparr>loop_tests := Suc (loop_tests ?st),
                        media_container := media_container ?st @ [(0, [])]\<rparr>)" .
  note U = T [THEN conjunct2, rule_format, OF m]
  from U have b: "stop_marker (state_of (play_iter prompt_env ?s))"
    by (rule conjunct1)
  from U have c: "stop_marker (snd (play_finish prompt_env ?s))"
    by (rule conjunct2 [THEN conjunct1])
  from U have d: "\<forall>fuel e s'. play_loop fuel prompt_env ?s = Some (e, s') \<longrightarrow> stop_marker s'"
    by (rule conjunct2 [THEN conjunct2])
  from d [rule_format, OF l] have "stop_marker s'" .
  with l have e: "map_option (\<lambda>(e, s'). (e, stop_marker s')) (play_loop 2 prompt_env ?s)
                    = Some (SentinelSeen, True)"
    by simp
  have "?st\<lparr>loop_tests := Suc (loop_tests ?st), media_container := media_container ?st @ [(0, [])]\<rparr>
          = ?st\<lparr>loop_tests := 1, media_container := [(0, [])]\<rparr>"
    by (simp add: worker_init_def)
  with a b c e show ?thesis
    by simp
qed

text \<open>
  Claim C9: bytes that the worker read after the last successful probe are dropped
  without an error. When the worker returns (its loop was left by the condition or by
  \<^verbatim>\<open>break\<close>), the payloads in the container followed by the pending bytes are the
  bytes it read, which are the bytes the stream handed out; and whatever the
  scheduler has written to the player when it leaves its loop is a prefix of the
  payloads in the container. So pending bytes left at the end are in no payload and
  are never written to the player.
\<close>

theorem pending_bytes_are_dropped:
  assumes run: "fetch_thread_worker probe halt strm chunk0 skip_at_end = (Returned, w)"
  shows "concat (map snd (media_container w)) @ pending_data w = full_data w \<and>
         full_data w @ buffer (w_stream w) = buffer strm \<and>
         (\<forall>fuel env stop0 e s.
            play_loop fuel env (play_init env stop0 (media_container w)) = Some (e, s) \<longrightarrow>
            prefix (player_stdin s) (concat (map snd (media_container w))))"
proof -
  from run have inv: "worker_inv probe (buffer strm) w"
    unfolding fetch_thread_worker_def
    by (rule worker_loop_inv [OF worker_init_inv])
  then have "concat (map snd (media_container w)) @ pending_data w = full_data w"
    and "full_data w @ buffer (w_stream w) = buffer strm"
    by (simp_all add: worker_inv_def)
  moreover have "prefix (player_stdin s) (concat (map snd (media_container w)))"
    if "play_loop fuel env (play_init env stop0 (media_container w)) = Some (e, s)"
    for fuel env stop0 e s
    using play_init_stdin that by (rule play_loop_stdin)
  ultimately show ?thesis
    by (intro conjI allI impI)
qed

theorem pending_bytes_are_dropped_witness:
  "pending_data (snd (fetch_thread_worker paged_probe never
                        (stream_with 10 ''0123456789'' [4, 4, 4]) 4 167)) = ''89'' \<and>
   full_data (snd (fetch_thread_worker paged_probe never
                        (stream_with 10 ''0123456789'' [4, 4, 4]) 4 167)) = ''0123456789'' \<and>
   concat (map snd (media_container (snd (fetch_thread_worker paged_probe never
                        (stream_with 10 ''0123456789'' [4, 4, 4]) 4 167)))) = ''01234567'' \<and>
   map_option (\<lambda>(r, s). (r, player_stdin s))
     (play paged_probe never (stream_with 10 ''0123456789'' [4, 4, 4]) 4 167 False prompt_env 3)
     = Some (Returned, ''01234567'')"
proof -
  define w where
    "w = snd (fetch_thread_worker paged_probe never (stream_with 10 ''0123456789'' [4, 4, 4]) 4 167)"
  have run: "fetch_thread_worker paged_probe never (stream_with 10 ''0123456789'' [4, 4, 4]) 4 167
               = (Returned, w)"
    by (simp add: w_def worker_eval paged_probe_def never_def stream_with_def)
  have p: "pending_data w = ''89''" and f: "full_data w = ''0123456789''"
    by (simp_all add: w_def worker_eval paged_probe_def never_def stream_with_def)
  have e: "map_option (\<lambda>(r, s). (r, player_stdin s))
     (play paged_probe never (stream_with 10 ''0123456789'' [4, 4, 4]) 4 167 False prompt_env 3)
     = Some (Returned, ''01234567'')"
    by (simp add: play_eval worker_eval play_loop_unfold paged_probe_def never_def
                  stream_with_def prompt_env_def)
  from pending_bytes_are_dropped [OF run] have "concat (map snd (media_container w)) @ pending_data w = full_data w"
    by (rule conjunct1)
  with p f have "concat (map snd (media_container w)) = ''01234567''"
    by simp
  with p f e show ?thesis
    by (simp add: w_def)
qed

section \<open>Claims about the bulk fetcher\<close>

text \<open>
  Claim C5: in \<^verbatim>\<open>get_media\<close> a zero-length read raises \<^verbatim>\<open>StreamReadException\<close> if and
  only if more than the tolerance (167 bytes by default) remains unread. The code
  compares the tolerance with the chunk size, which it shrinks to the remaining
  amount only when less than a chunk remains. With a chunk size of 100, below the
  tolerance, a first read that returns nothing ends the fetch as a success with none
  of the 1000 declared bytes read.
\<close>

theorem bulk_fetch_small_chunk_accepts_short_stream:
  "fst (get_media ''id'' (\<lambda>k. []) (stream_of 1000 1000 [0]) 100 [] True 167) = Inr [] \<and>
   requests (f_stream (snd (get_media ''id'' (\<lambda>k. []) (stream_of 1000 1000 [0]) 100 [] True 167)))
     = [100] \<and>
   pg_log (snd (get_media ''id'' (\<lambda>k. []) (stream_of 1000 1000 [0]) 100 [] True 167))
     = [(0, 1000, ''Downloading'')]"
  by (simp add: fetch_eval stream_of_def)

text \<open>
  Claim C10: in \<^verbatim>\<open>get_media\<close> cancellation takes precedence over completion: if the
  media id is in the stop list when the read loop is left, \<^verbatim>\<open>FetchInterrupted\<close>
  (\<^verbatim>\<open>MediaFetchInterruptedException\<close>) is raised and the fetched bytes are discarded even
  when all bytes were read, and the id is removed from the shared list before the
  raise. The code does so when the progress callback is callable. It tests the
  callback for \<^verbatim>\<open>None\<close> at line 269 and calls it without a test at line 284: with
  \<^verbatim>\<open>pg_notify = None\<close>, all ten bytes read and the id put on the list during the last
  pass, the id is popped, the call raises \<^verbatim>\<open>TypeError\<close>, and neither the reset of the
  stream nor the raise of \<^verbatim>\<open>MediaFetchInterruptedException\<close> is reached.
\<close>

theorem cancellation_without_callback_raises_type_error:
  "raw_media (snd (get_media_loop ''id'' (\<lambda>k. if k = 1 then [''id''] else []) 10 167
                     (fetch_init (stream_with 10 ''0123456789'' [6, 6]) 6 [] False)))
     = ''0123456789'' \<and>
   stop_check_list (snd (get_media_loop ''id'' (\<lambda>k. if k = 1 then [''id''] else []) 10 167
                     (fetch_init (stream_with 10 ''0123456789'' [6, 6]) 6 [] False)))
     = [''id''] \<and>
   fst (get_media ''id'' (\<lambda>k. if k = 1 then [''id''] else [])
          (stream_with 10 ''0123456789'' [6, 6]) 6 [] False 167)
     = Inl TypeError \<and>
   stop_check_list (snd (get_media ''id'' (\<lambda>k. if k = 1 then [''id''] else [])
                           (stream_with 10 ''0123456789'' [6, 6]) 6 [] False 167)) = [] \<and>
   handle_valid (snd (get_media ''id'' (\<lambda>k. if k = 1 then [''id''] else [])
                        (stream_with 10 ''0123456789'' [6, 6]) 6 [] False 167))"
  by (simp add: fetch_eval stream_with_def)

section \<open>Claims about the scheduler\<close>

text \<open>
  Claim C1: if the worker fails with \<^verbatim>\<open>StreamReadException\<close> after publishing the
  sentinel, the invocation of \<^verbatim>\<open>play\<close> does not finish as a normal completion. In the
  code the exception is raised on the worker's thread and \<^verbatim>\<open>play\<close> never looks at it:
  the stream hands out 500 of its 1000 declared bytes and then nothing, the worker
  publishes one segment, the sentinel, and raises; the scheduler writes the segment,
  pops the sentinel and returns normally with the stream reset.
\<close>

theorem worker_failure_ends_as_completion:
  "fst (fetch_thread_worker length_probe never (stream_of 1000 1000 [500]) 1024 167)
     = Raised StreamReadException \<and>
   media_container (snd (fetch_thread_worker length_probe never (stream_of 1000 1000 [500]) 1024 167))
     = [(5, replicate 500 CHR ''a''), (0, [])] \<and>
   map_option (\<lambda>(r, s). (r, stream_loaded s, stop_marker s, player_stdin s))
     (play length_probe never (stream_of 1000 1000 [500]) 1024 167 False prompt_env 2)
     = Some (Returned, False, False, replicate 500 CHR ''a'')"
  by (simp add: play_eval worker_eval play_loop_unfold length_probe_def never_def
                stream_of_def prompt_env_def)

text \<open>
  Claim C1 as amended: when the worker raises \<^verbatim>\<open>StreamReadException\<close> after publishing
  the sentinel, the exception stays on the worker's thread and \<^verbatim>\<open>play\<close> finishes as a
  normal completion: in every undisturbed session in which the worker's items are in
  the container at the first pass, \<^verbatim>\<open>play\<close> returns without an exception, after
  writing the payloads published before the first empty one and resetting the stream.
\<close>

theorem worker_failure_stays_on_worker_thread:
  assumes run: "fetch_thread_worker probe halt strm chunk_size0 skip_at_end_bytes =
                  (Raised StreamReadException, w)"
      and q: "quiet env"
      and arrived: "length (media_container w) \<le> arrivals env 0"
  shows "\<exists>fuel s. play probe halt strm chunk_size0 skip_at_end_bytes stop0 env fuel = Some (Returned, s) \<and>
           \<not> stream_loaded s \<and>
           player_stdin s =
             concat (map snd (takeWhile (\<lambda>seg. snd seg \<noteq> []) (media_container w)))"
proof -
  let ?items = "media_container w"
  let ?xs = "takeWhile (\<lambda>seg. snd seg \<noteq> []) ?items"
  let ?s0 = "play_init env stop0 ?items"
  from run obtain pre where "?items = pre @ [(0, [])]"
    unfolding fetch_thread_worker_def
    using worker_loop_sentinel by blast
  from first_empty_payload [OF this]
  obtain d rest where items: "?items = ?xs @ (d, []) # rest" by blast
  have f0: "fresh env ?s0"
    unfolding fresh_def by (intro exI [of _ 0]) (simp add: play_init_def)
  have nonempty: "\<forall>x\<in>set ?xs. snd x \<noteq> []"
    by (auto dest: set_takeWhileD)
  from arrived have "container (worker_appends env ?s0) = ?items"
    by (simp add: worker_appends_def play_init_def Let_def)
  with items have "container (worker_appends env ?s0) = ?xs @ (d, []) # rest"
    by simp
  from play_loop_drains [OF q f0 nonempty this]
  obtain s' where loop: "play_loop (Suc (length ?xs)) env ?s0 = Some (SentinelSeen, s')"
    and stdin: "player_stdin s' = player_stdin ?s0 @ concat (map snd ?xs)"
    by blast
  from run loop
  have "play probe halt strm chunk_size0 skip_at_end_bytes stop0 env (Suc (length ?xs))
          = Some (play_finish env s')"
    by (simp add: play_def)
  moreover obtain r s where rs: "play_finish env s' = (r, s)" by force
  moreover from play_finish_quiet [OF q, of s'] rs stdin
  have fin: "r = Returned" "\<not> stream_loaded s" "player_stdin s = concat (map snd ?xs)"
    by (simp_all add: play_init_def)
  ultimately have "play probe halt strm chunk_size0 skip_at_end_bytes stop0 env (Suc (length ?xs))
          = Some (Returned, s)"
    by simp
  with fin show ?thesis
    by (intro exI [of _ "Suc (length ?xs)"] exI [of _ s] conjI)
qed

theorem worker_failure_stays_on_worker_thread_witness:
  "\<exists>fuel s. play length_probe never (stream_of 1000 1000 [500]) 1024 167 False prompt_env fuel
               = Some (Returned, s) \<and>
            \<not> stream_loaded s \<and> player_stdin s = replicate 500 CHR ''a''"
proof -
  define w where
    "w = snd (fetch_thread_worker length_probe never (stream_of 1000 1000 [500]) 1024 167)"
  have run: "fetch_thread_worker length_probe never (stream_of 1000 1000 [500]) 1024 167
               = (Raised StreamReadException, w)"
    by (simp add: w_def worker_eval length_probe_def never_def stream_of_def)
  have items: "media_container w = [(5, replicate 500 CHR ''a''), (0, [])]"
    by (simp add: w_def worker_eval length_probe_def never_def stream_of_def)
  then have arrived: "length (media_container w) \<le> arrivals prompt_env 0"
    by (simp add: prompt_env_def)
  from worker_failure_stays_on_worker_thread [OF run quiet_prompt_env arrived, of False] items
  show ?thesis
    by simp
qed

text \<open>
  Claim C2: on every terminal outcome of the scheduler, the stall watchdog included,
  the stream handle is reset before \<^verbatim>\<open>play\<close> returns or raises. The watchdog's
  \<^verbatim>\<open>RuntimeError\<close> is raised inside the \<^verbatim>\<open>try\<close> whose handler catches only
  \<^verbatim>\<open>KeyboardInterrupt\<close> and \<^verbatim>\<open>BrokenPipeError\<close>, so it leaves \<^verbatim>\<open>play\<close> past the
  \<^verbatim>\<open>reset_stream\<close> of line 460: nothing arrives while the clock advances by a second
  per reading, the sixteenth pass finds more than 15 seconds gone, and \<^verbatim>\<open>play\<close> raises
  with the stream still loaded.
\<close>

theorem stall_leaves_stream_handle:
  "map_option (\<lambda>(r, s). (r, stream_loaded s, stop_marker s))
     (play length_probe never (stream_of 1000 1000 [500, 500]) 1024 167 False stalled_env 16)
   = Some (Raised RuntimeError, True, True)"
  by (simp add: play_eval worker_eval play_loop_unfold length_probe_def never_def
                stream_of_def stalled_env_def)

text \<open>
  Claim C6: a segment that is not the first and arrives more than the 30 ms slack
  after \<open>next_frame_critical_time\<close> extends \<open>estimated_playback_end_on\<close> by the
  overrun minus the slack, 170 ms for an arrival 200 ms late. The code adds the whole
  overrun, the clock reading of line 428 minus \<open>next_frame_critical_time\<close>; the slack
  only decides whether anything is added. For an arrival 200 ms late it adds 200 ms.
\<close>

theorem lag_is_not_overrun_minus_slack:
  "estimated_playback_end_on (lag_compensation late_env late_state) =
     estimated_playback_end_on late_state + 2 / 10 \<and>
   estimated_playback_end_on (lag_compensation late_env late_state) \<noteq>
     estimated_playback_end_on late_state + (2 / 10 - 3 / 100)"
  by (simp add: lag_compensation_def time_time_def late_env_def late_state_def Let_def)

text \<open>
  Claim C6 as amended: when \<open>next_frame_critical_time\<close> is set and the clock reads more
  than 30 ms past it, \<open>estimated_playback_end_on\<close> grows by the next clock reading
  minus \<open>next_frame_critical_time\<close>, the whole overrun; otherwise it is unchanged.
\<close>

theorem lag_extends_by_full_overrun:
  "estimated_playback_end_on (lag_compensation env s) =
     (if next_frame_critical_time s \<noteq> 0 \<and>
         clock env (clock_reads s) > next_frame_critical_time s + 3 / 100
      then estimated_playback_end_on s +
             (clock env (Suc (clock_reads s)) - next_frame_critical_time s)
      else estimated_playback_end_on s)"
  by (simp add: lag_compensation_def time_time_def Let_def)

end

